theory Spec2Isabelle
  imports Main
begin

section \<open>Switch box firmware: encoder and buttons over a serial link\<close>

text \<open>
  A shallow embedding of \<^verbatim>\<open>switch-box-V1.5.py\<close> (and of the one function of
  \<^verbatim>\<open>Switch_box_V1.3.py\<close> that differs in behaviour, \<^verbatim>\<open>safe_uart_write\<close>).
  The functions \<^verbatim>\<open>check_rate_limit\<close>, the three interrupt handlers,
  \<^verbatim>\<open>periodic_cleanup\<close> and \<^verbatim>\<open>system_reset\<close> are the same statements in both
  revisions, so one definition stands for both. The three processing routines are
  modelled as revision 1.5 runs them, with its \<^verbatim>\<open>safe_uart_write\<close>.

  The module's globals and the hardware they talk to are one record that every
  function takes and returns. Time is a clock in microseconds that only
  \<^verbatim>\<open>time.sleep_ms\<close> (and the environment) advances; a pin is its level as a function
  of that clock; the UART is a receive buffer with fault flags, and the bytes that
  reached the host are the \<open>wire\<close>.
\<close>

subsection \<open>MicroPython's tick counters\<close>

text \<open>
  \<^verbatim>\<open>time.ticks_ms()\<close> and \<^verbatim>\<open>time.ticks_us()\<close> count modulo \<open>TICKS_PERIOD\<close>
  (\<open>2 ^ 30\<close> on the RP2 port), and \<^verbatim>\<open>time.ticks_diff(a, b)\<close> is the signed
  difference in the ring:
  \<^verbatim>\<open>((a - b + TICKS_PERIOD / 2) & (TICKS_PERIOD - 1)) - TICKS_PERIOD / 2\<close>.
\<close>

definition TICKS_PERIOD :: int where
  "TICKS_PERIOD = 2 ^ 30"

definition ticks_diff :: "int \<Rightarrow> int \<Rightarrow> int" where
  "ticks_diff a b = (a - b + TICKS_PERIOD div 2) mod TICKS_PERIOD - TICKS_PERIOD div 2"

subsection \<open>Data model\<close>

text \<open>The dictionaries \<^verbatim>\<open>encoder_state\<close>, \<^verbatim>\<open>button_state\<close> and \<^verbatim>\<open>stats\<close> have fixed keys.\<close>

record encoder_rec =
  last_a :: int
  last_time :: int
  debounce_us :: int
  interrupt_count :: int
  last_rate_check :: int
  max_rate :: int

record button_rec =
  override_last_time :: int
  pump_last_time :: int
  debounce_ms :: int

record stats_rec =
  steps :: int
  overrides :: int
  pump_stops :: int
  blocked :: int

text \<open>
  The UART object: the bytes waiting in its receive buffer, and for each method
  whether calling it raises (\<open>Some msg\<close>, with \<open>msg\<close> the text of the exception).
\<close>

record uart =
  rx_buf :: string
  any_exn :: "string option"
  read_exn :: "string option"
  write_exn :: "string option"
  deinit_exn :: "string option"

text \<open>
  The world outside the module: the clock (microseconds since power-up), the five
  input pins as levels over time, what constructing a new \<^verbatim>\<open>UART(0, ...)\<close> gives
  (an exception or a fresh object), the bytes written to the host so far, and the
  lines printed on the console.
\<close>

record world =
  clock :: nat
  pin_a :: "nat \<Rightarrow> int"
  pin_b :: "nat \<Rightarrow> int"
  pin_modifier :: "nat \<Rightarrow> int"
  pin_override :: "nat \<Rightarrow> int"
  pin_pump_stop :: "nat \<Rightarrow> int"
  uart_new :: "string + uart"
  wire :: string
  console :: "string list"

record state = world +
  serial :: uart
  interrupt_lock :: bool
  encoder_pending :: bool
  override_pending :: bool
  pump_pending :: bool
  encoder_state :: encoder_rec
  button_state :: button_rec
  stats :: stats_rec

subsection \<open>Library calls\<close>

definition ticks_ms :: "state \<Rightarrow> int" where
  "ticks_ms s = int (clock s div 1000) mod TICKS_PERIOD"

definition ticks_us :: "state \<Rightarrow> int" where
  "ticks_us s = int (clock s) mod TICKS_PERIOD"

definition sleep_ms :: "nat \<Rightarrow> state \<Rightarrow> state" where
  "sleep_ms n s = s\<lparr>clock := clock s + 1000 * n\<rparr>"

definition print_line :: "string \<Rightarrow> state \<Rightarrow> state" where
  "print_line l s = s\<lparr>console := console s @ [l]\<rparr>"

text \<open>Decimal text of an integer, as an f-string renders it.\<close>

definition digit_char :: "nat \<Rightarrow> char" where
  "digit_char d = ''0123456789'' ! (d mod 10)"

fun str_nat :: "nat \<Rightarrow> string" where
  "str_nat n = (if n < 10 then [digit_char n] else str_nat (n div 10) @ [digit_char (n mod 10)])"

definition str_int :: "int \<Rightarrow> string" where
  "str_int i = (if i < 0 then ''-'' @ str_nat (nat (- i)) else str_nat (nat i))"

text \<open>The three UART methods the module calls; \<open>Inl msg\<close> is a raised exception.\<close>

definition serial_any :: "state \<Rightarrow> string + nat" where
  "serial_any s =
     (case any_exn (serial s) of
        Some e \<Rightarrow> Inl e
      | None \<Rightarrow> Inr (length (rx_buf (serial s))))"

definition serial_read1 :: "state \<Rightarrow> string + state" where
  "serial_read1 s =
     (case read_exn (serial s) of
        Some e \<Rightarrow> Inl e
      | None \<Rightarrow> Inr (s\<lparr>serial := (serial s)\<lparr>rx_buf := drop 1 (rx_buf (serial s))\<rparr>\<rparr>))"

definition serial_write :: "string \<Rightarrow> state \<Rightarrow> string + state" where
  "serial_write message s =
     (case write_exn (serial s) of
        Some e \<Rightarrow> Inl e
      | None \<Rightarrow> Inr (s\<lparr>wire := wire s @ message\<rparr>))"

definition serial_deinit :: "state \<Rightarrow> string + state" where
  "serial_deinit s =
     (case deinit_exn (serial s) of
        Some e \<Rightarrow> Inl e
      | None \<Rightarrow> Inr s)"

text \<open>
  The loop \<^verbatim>\<open>while serial.any(): serial.read(1)\<close> of \<^verbatim>\<open>safe_uart_write\<close> and
  \<^verbatim>\<open>periodic_cleanup\<close>. It returns the exception that ended it, if any, and the
  state reached.
\<close>

function drain_rx :: "state \<Rightarrow> string option \<times> state" where
  "drain_rx s =
     (case serial_any s of
        Inl e \<Rightarrow> (Some e, s)
      | Inr n \<Rightarrow>
          if n = 0 then (None, s)
          else (case serial_read1 s of
                  Inl e \<Rightarrow> (Some e, s)
                | Inr s' \<Rightarrow> drain_rx s'))"
  by pat_completeness auto
termination
  by (relation "measure (\<lambda>s. length (rx_buf (serial s)))")
     (auto simp: serial_any_def serial_read1_def split: option.splits)

declare drain_rx.simps [simp del]

subsection \<open>UART health management\<close>

definition ensure_uart_alive :: "state \<Rightarrow> bool \<times> state" where
  "ensure_uart_alive s =
     (case serial_write [] s of
        Inr s1 \<Rightarrow> (True, s1)
      | Inl e \<Rightarrow>
          let s1 = print_line (''UART error, reinitializing: '' @ e) s;
              s2 = (case serial_deinit s1 of Inl _ \<Rightarrow> s1 | Inr s' \<Rightarrow> s');
              s3 = sleep_ms 50 s2
          in (case uart_new s3 of
                Inr u \<Rightarrow> (True, print_line ''UART reinitialized'' (s3\<lparr>serial := u\<rparr>))
              | Inl e' \<Rightarrow> (False, print_line (''UART reinit failed: '' @ e') s3)))"

definition uart_write_failed :: "string \<Rightarrow> state \<Rightarrow> bool \<times> state" where
  "uart_write_failed e s =
     (False, snd (ensure_uart_alive (print_line (''UART write failed: '' @ e) s)))"

definition safe_uart_write :: "string \<Rightarrow> state \<Rightarrow> bool \<times> state" where
  "safe_uart_write message s =
     (case drain_rx s of
        (Some e, s1) \<Rightarrow> uart_write_failed e s1
      | (None, s1) \<Rightarrow>
          (case serial_write message s1 of
             Inl e \<Rightarrow> uart_write_failed e s1
           | Inr s2 \<Rightarrow> (True, s2)))"

text \<open>Revision 1.3 has no health check: its handler is a bare \<^verbatim>\<open>return False\<close>.\<close>

definition safe_uart_write_v13 :: "string \<Rightarrow> state \<Rightarrow> bool \<times> state" where
  "safe_uart_write_v13 message s =
     (case drain_rx s of
        (Some e, s1) \<Rightarrow> (False, s1)
      | (None, s1) \<Rightarrow>
          (case serial_write message s1 of
             Inl e \<Rightarrow> (False, s1)
           | Inr s2 \<Rightarrow> (True, s2)))"

subsection \<open>Interrupt handlers\<close>

definition check_rate_limit :: "state \<Rightarrow> bool \<times> state" where
  "check_rate_limit s =
     (let now = ticks_ms s in
      if ticks_diff now (last_rate_check (encoder_state s)) \<ge> 1000 then
        (True, s\<lparr>encoder_state :=
                  (encoder_state s)\<lparr>interrupt_count := 0, last_rate_check := now\<rparr>\<rparr>)
      else
        let s1 = s\<lparr>encoder_state :=
                    (encoder_state s)\<lparr>interrupt_count :=
                                         interrupt_count (encoder_state s) + 1\<rparr>\<rparr>
        in (interrupt_count (encoder_state s1) \<le> max_rate (encoder_state s1), s1))"

definition count_blocked :: "state \<Rightarrow> state" where
  "count_blocked s = s\<lparr>stats := (stats s)\<lparr>blocked := blocked (stats s) + 1\<rparr>\<rparr>"

text \<open>
  The handlers ignore their \<^verbatim>\<open>pin\<close> argument. In \<^verbatim>\<open>encoder_isr\<close> the \<^verbatim>\<open>and\<close>
  short-circuits: with the lock set \<^verbatim>\<open>check_rate_limit\<close> is not called.
\<close>

definition encoder_isr :: "state \<Rightarrow> state" where
  "encoder_isr s =
     (if interrupt_lock s then count_blocked s
      else (case check_rate_limit s of
              (True, s1) \<Rightarrow> s1\<lparr>encoder_pending := True\<rparr>
            | (False, s1) \<Rightarrow> count_blocked s1))"

definition override_isr :: "state \<Rightarrow> state" where
  "override_isr s = (if \<not> interrupt_lock s then s\<lparr>override_pending := True\<rparr> else s)"

definition pump_stop_isr :: "state \<Rightarrow> state" where
  "pump_stop_isr s = (if \<not> interrupt_lock s then s\<lparr>pump_pending := True\<rparr> else s)"

subsection \<open>Processing routines\<close>

definition encoder_msg :: "int \<Rightarrow> int \<Rightarrow> string" where
  "encoder_msg b m =
     (let step = (if m = 0 then 10 else 1)
      in if b = 0 then ''+'' @ str_int step else ''-'' @ str_int step)"

definition process_encoder :: "state \<Rightarrow> state" where
  "process_encoder s =
     (if \<not> encoder_pending s then s
      else
        let s1 = s\<lparr>encoder_pending := False\<rparr>;
            now = ticks_us s1
        in if ticks_diff now (last_time (encoder_state s1)) < debounce_us (encoder_state s1)
           then s1
           else
             let a = pin_a s1 (clock s1);
                 b = pin_b s1 (clock s1);
                 s5 = (if a = 1 then
                         let msg = encoder_msg b (pin_modifier s1 (clock s1));
                             s2 = print_line msg s1;
                             s3 = snd (safe_uart_write (msg @ ''\<newline>'') s2);
                             s4 = s3\<lparr>stats := (stats s3)\<lparr>steps := steps (stats s3) + 1\<rparr>\<rparr>
                         in s4\<lparr>encoder_state := (encoder_state s4)\<lparr>last_time := now\<rparr>\<rparr>
                       else s1)
             in s5\<lparr>encoder_state := (encoder_state s5)\<lparr>last_a := a\<rparr>\<rparr>)"

definition process_override :: "state \<Rightarrow> state" where
  "process_override s =
     (if \<not> override_pending s then s
      else
        let s1 = s\<lparr>override_pending := False\<rparr>;
            now = ticks_ms s1
        in if ticks_diff now (override_last_time (button_state s1)) < debounce_ms (button_state s1)
           then s1
           else
             let s2 = s1\<lparr>button_state := (button_state s1)\<lparr>override_last_time := now\<rparr>\<rparr>;
                 s3 = sleep_ms 5 s2
             in if pin_override s3 (clock s3) = 0 then
                  let s4 = snd (safe_uart_write ''OV\<newline>'' s3);
                      s5 = print_line ''OV'' s4
                  in s5\<lparr>stats := (stats s5)\<lparr>overrides := overrides (stats s5) + 1\<rparr>\<rparr>
                else s3)"

definition process_pump_stop :: "state \<Rightarrow> state" where
  "process_pump_stop s =
     (if \<not> pump_pending s then s
      else
        let s1 = s\<lparr>pump_pending := False\<rparr>;
            now = ticks_ms s1
        in if ticks_diff now (pump_last_time (button_state s1)) < debounce_ms (button_state s1)
           then s1
           else
             let s2 = s1\<lparr>button_state := (button_state s1)\<lparr>pump_last_time := now\<rparr>\<rparr>;
                 s3 = sleep_ms 5 s2
             in if pin_pump_stop s3 (clock s3) = 0 then
                  let s4 = snd (safe_uart_write ''PS\<newline>'' s3);
                      s5 = print_line ''PS'' s4
                  in s5\<lparr>stats := (stats s5)\<lparr>pump_stops := pump_stops (stats s5) + 1\<rparr>\<rparr>
                else s3)"

subsection \<open>Maintenance and reset\<close>

text \<open>
  \<^verbatim>\<open>periodic_cleanup\<close> and \<^verbatim>\<open>system_reset\<close> drain the receive buffer outside any
  \<^verbatim>\<open>try\<close>: an exception of the UART leaves them at once, with the globals as they
  are at that point. \<^verbatim>\<open>gc.collect()\<close> touches nothing that is modelled.
\<close>

datatype outcome = Returned | Raised string

definition periodic_cleanup :: "state \<Rightarrow> outcome \<times> state" where
  "periodic_cleanup s =
     (case drain_rx s of
        (Some e, s1) \<Rightarrow> (Raised e, s1)
      | (None, s1) \<Rightarrow> (Returned, s1))"

definition system_reset :: "state \<Rightarrow> outcome \<times> state" where
  "system_reset s =
     (let s1 = s\<lparr>interrupt_lock := True, encoder_pending := False,
                 override_pending := False, pump_pending := False\<rparr>;
          s2 = s1\<lparr>encoder_state :=
                    (encoder_state s1)\<lparr>last_a := pin_a s1 (clock s1),
                                        last_time := ticks_us s1,
                                        interrupt_count := 0\<rparr>\<rparr>
      in (case periodic_cleanup s2 of
            (Raised e, s3) \<Rightarrow> (Raised e, s3)
          | (Returned, s3) \<Rightarrow> (Returned, (sleep_ms 10 s3)\<lparr>interrupt_lock := False\<rparr>)))"

subsection \<open>Start-up and the environment\<close>

text \<open>The module's top-level assignments, run once in the world \<open>w\<close> with UART \<open>u\<close>.\<close>

definition init_state :: "world \<Rightarrow> uart \<Rightarrow> state" where
  "init_state w u =
     \<lparr>clock = clock w, pin_a = pin_a w, pin_b = pin_b w, pin_modifier = pin_modifier w,
      pin_override = pin_override w, pin_pump_stop = pin_pump_stop w,
      uart_new = uart_new w, wire = wire w, console = console w,
      serial = u,
      interrupt_lock = False,
      encoder_pending = False,
      override_pending = False,
      pump_pending = False,
      encoder_state =
        \<lparr>last_a = pin_a w (clock w),
         last_time = int (clock w) mod TICKS_PERIOD,
         debounce_us = 1500,
         interrupt_count = 0,
         last_rate_check = int (clock w div 1000) mod TICKS_PERIOD,
         max_rate = 1000\<rparr>,
      button_state =
        \<lparr>override_last_time = int (clock w div 1000) mod TICKS_PERIOD,
         pump_last_time = int (clock w div 1000) mod TICKS_PERIOD,
         debounce_ms = 50\<rparr>,
      stats = \<lparr>steps = 0, overrides = 0, pump_stops = 0, blocked = 0\<rparr>\<rparr>"

text \<open>Time passing between two steps of the program, in microseconds.\<close>

definition elapse :: "nat \<Rightarrow> state \<Rightarrow> state" where
  "elapse d s = s\<lparr>clock := clock s + d\<rparr>"

text \<open>A train of \<open>n\<close> encoder interrupts, each \<open>gap\<close> microseconds after the previous step.\<close>

fun encoder_irqs :: "nat \<Rightarrow> nat \<Rightarrow> state \<Rightarrow> state" where
  "encoder_irqs 0 gap s = s"
| "encoder_irqs (Suc n) gap s = encoder_irqs n gap (encoder_isr (elapse gap s))"

text \<open>A healthy UART with an empty buffer, and a quiet world: every pin at rest.\<close>

definition good_uart :: uart where
  "good_uart = \<lparr>rx_buf = [], any_exn = None, read_exn = None, write_exn = None,
                deinit_exn = None\<rparr>"

definition quiet_world :: world where
  "quiet_world =
     \<lparr>clock = 0, pin_a = (\<lambda>_. 0), pin_b = (\<lambda>_. 0), pin_modifier = (\<lambda>_. 1),
      pin_override = (\<lambda>_. 1), pin_pump_stop = (\<lambda>_. 1),
      uart_new = Inr good_uart, wire = [], console = []\<rparr>"

definition boot :: state where
  "boot = init_state quiet_world good_uart"

subsection \<open>Vocabulary of the properties\<close>

text \<open>
  \<open>drain_ok\<close>: the receive buffer can be emptied without an exception;
  \<open>send_ok\<close>: a send goes through (drain and write both succeed);
  \<open>send_error\<close>: the text of the exception that ends a send which does not;
  \<open>configured\<close>: the three thresholds have the values the module gives them at
  start-up (nothing in the module assigns them again);
  \<open>observable\<close>: the part of the state a reset is judged by.
\<close>

definition drain_ok :: "uart \<Rightarrow> bool" where
  "drain_ok u = (any_exn u = None \<and> (rx_buf u = [] \<or> read_exn u = None))"

definition send_ok :: "uart \<Rightarrow> bool" where
  "send_ok u = (drain_ok u \<and> write_exn u = None)"

definition send_error :: "uart \<Rightarrow> string" where
  "send_error u =
     (case any_exn u of
        Some e \<Rightarrow> e
      | None \<Rightarrow>
          (case (if rx_buf u = [] then None else read_exn u) of
             Some e \<Rightarrow> e
           | None \<Rightarrow> (case write_exn u of Some e \<Rightarrow> e | None \<Rightarrow> [])))"

definition configured :: "state \<Rightarrow> bool" where
  "configured s = (debounce_us (encoder_state s) = 1500 \<and> max_rate (encoder_state s) = 1000
     \<and> debounce_ms (button_state s) = 50)"

definition observable :: "state \<Rightarrow> bool \<times> bool \<times> bool \<times> bool \<times> int" where
  "observable s = (encoder_pending s, override_pending s, pump_pending s, interrupt_lock s,
     interrupt_count (encoder_state s))"

text \<open>Scenarios: a rising edge of phase A at 2 ms, and a button pressed at 100 ms for \<open>hold\<close> microseconds.\<close>

definition edge_world :: "int \<Rightarrow> int \<Rightarrow> world" where
  "edge_world b m =
     quiet_world\<lparr>pin_a := (\<lambda>t. if 2000 \<le> t then 1 else 0), pin_b := (\<lambda>_. b),
                 pin_modifier := (\<lambda>_. m)\<rparr>"

definition edge_state :: "int \<Rightarrow> int \<Rightarrow> state" where
  "edge_state b m = encoder_isr (elapse 2000 (init_state (edge_world b m) good_uart))"

definition press_world :: "nat \<Rightarrow> world" where
  "press_world hold =
     quiet_world\<lparr>pin_override := (\<lambda>t. if 100000 \<le> t \<and> t < 100000 + hold then 0 else 1),
                 pin_pump_stop := (\<lambda>t. if 100000 \<le> t \<and> t < 100000 + hold then 0 else 1)\<rparr>"

definition press_state :: "nat \<Rightarrow> state" where
  "press_state hold =
     pump_stop_isr (override_isr (elapse 100000 (init_state (press_world hold) good_uart)))"

text \<open>
  The rate limiter in the specification's words, on a counter and a window start
  alone, with \<open>now\<close> and the window start as times in milliseconds since power-up
  (not tick values): if at least 1000 ms have elapsed since the window start, reset
  the counter to 0 and the window start to now, and admit; otherwise increment the
  counter and admit iff it is at most 1000. The result is the verdict, the new counter
  and the new window start.
\<close>

definition admit_spec :: "int \<Rightarrow> int \<Rightarrow> int \<Rightarrow> bool \<times> int \<times> int" where
  "admit_spec now counter start =
     (if now - start \<ge> 1000 then (True, 0, now)
      else (counter + 1 \<le> 1000, counter + 1, start))"

definition drained :: "state \<Rightarrow> state" where
  "drained s = s\<lparr>serial := (serial s)\<lparr>rx_buf := []\<rparr>\<rparr>"

text \<open>
  \<open>in_window\<close>: the clock is inside the rate limiter's current window, and the
  tick counter is far from wrapping.
\<close>

definition in_window :: "state \<Rightarrow> bool" where
  "in_window s = (0 \<le> last_rate_check (encoder_state s)
     \<and> last_rate_check (encoder_state s) \<le> int (clock s div 1000)
     \<and> int (clock s div 1000) < last_rate_check (encoder_state s) + 1000
     \<and> last_rate_check (encoder_state s) < 2 ^ 29)"

text \<open>
  More scenarios: the lock held; the first interrupt one second after start-up, which
  opens a fresh window; a window used up (1001 interrupts counted, the last one
  rejected); and a UART whose \<^verbatim>\<open>write\<close> raises, with two bytes waiting.
\<close>

definition locked_state :: state where
  "locked_state = boot\<lparr>interrupt_lock := True\<rparr>"


definition saturated :: state where
  "saturated = encoder_isr (elapse 500 (encoder_irqs 1000 500 boot))"

definition faulty_state :: state where
  "faulty_state = boot\<lparr>serial := good_uart\<lparr>rx_buf := ''zz'', write_exn := Some ''EIO''\<rparr>\<rparr>"

text \<open>
  Scenarios after a long idle time: a rising edge of phase A 600 s after start-up;
  both buttons pressed, and held, 7 days after start-up; and the idle system 7 days
  after start-up.
\<close>

definition late_edge_world :: world where
  "late_edge_world = quiet_world\<lparr>pin_a := (\<lambda>t. if 600000000 \<le> t then 1 else 0)\<rparr>"

definition late_edge_state :: state where
  "late_edge_state = encoder_isr (elapse 600000000 (init_state late_edge_world good_uart))"

definition late_press_world :: world where
  "late_press_world =
     quiet_world\<lparr>pin_override := (\<lambda>t. if 604800000000 \<le> t then 0 else 1),
                 pin_pump_stop := (\<lambda>t. if 604800000000 \<le> t then 0 else 1)\<rparr>"

definition late_press_state :: state where
  "late_press_state =
     pump_stop_isr (override_isr (elapse 604800000000 (init_state late_press_world good_uart)))"

definition week_later :: state where
  "week_later = elapse 604800000000 boot"

section \<open>Auxiliary facts\<close>

lemma drain_rx_closed:
  "drain_rx s =
     (case any_exn (serial s) of
        Some e \<Rightarrow> (Some e, s)
      | None \<Rightarrow>
          if rx_buf (serial s) = [] then (None, s)
          else (case read_exn (serial s) of
                  Some e \<Rightarrow> (Some e, s)
                | None \<Rightarrow> (None, s\<lparr>serial := (serial s)\<lparr>rx_buf := []\<rparr>\<rparr>)))"
proof (induction s rule: drain_rx.induct)
  case (1 s)
  show ?case
  proof (cases "any_exn (serial s)")
    case (Some e)
    then show ?thesis by (subst drain_rx.simps) (simp add: serial_any_def)
  next
    case None
    note anyN = this
    show ?thesis
    proof (cases "rx_buf (serial s)")
      case Nil
      with anyN show ?thesis by (subst drain_rx.simps) (simp add: serial_any_def)
    next
      case (Cons c cs)
      show ?thesis
      proof (cases "read_exn (serial s)")
        case (Some e)
        with anyN Cons show ?thesis
          by (subst drain_rx.simps) (simp add: serial_any_def serial_read1_def)
      next
        case None
        let ?s' = "s\<lparr>serial := (serial s)\<lparr>rx_buf := drop 1 (rx_buf (serial s))\<rparr>\<rparr>"
        have r: "serial_read1 s = Inr ?s'" using None by (simp add: serial_read1_def)
        have a: "serial_any s = Inr (length (rx_buf (serial s)))" using anyN by (simp add: serial_any_def)
        have ih: "drain_rx (s\<lparr>serial := (serial s)\<lparr>rx_buf := cs\<rparr>\<rparr>)
                    = (None, s\<lparr>serial := (serial s)\<lparr>rx_buf := []\<rparr>\<rparr>)"
          using "1.IH"[OF a _ r] Cons anyN None by (cases "cs = []") simp_all
        show ?thesis
          apply (subst drain_rx.simps)
          apply (simp only: a r)
          apply (simp add: ih anyN None Cons)
          done
      qed
    qed
  qed
qed

lemma ticks_diff_small: "0 \<le> a - b \<Longrightarrow> a - b < 2 ^ 29 \<Longrightarrow> ticks_diff a b = a - b"
  by (simp add: ticks_diff_def TICKS_PERIOD_def)

lemma ensure_uart_alive_keeps:
  "wire (snd (ensure_uart_alive s)) = wire s"
  "interrupt_lock (snd (ensure_uart_alive s)) = interrupt_lock s"
  "encoder_pending (snd (ensure_uart_alive s)) = encoder_pending s"
  "override_pending (snd (ensure_uart_alive s)) = override_pending s"
  "pump_pending (snd (ensure_uart_alive s)) = pump_pending s"
  "encoder_state (snd (ensure_uart_alive s)) = encoder_state s"
  "button_state (snd (ensure_uart_alive s)) = button_state s"
  "stats (snd (ensure_uart_alive s)) = stats s"
  by (simp_all add: ensure_uart_alive_def serial_write_def serial_deinit_def sleep_ms_def
      print_line_def Let_def split: option.splits sum.splits)

lemma drained_id: "rx_buf (serial s) = [] \<Longrightarrow> s\<lparr>serial := (serial s)\<lparr>rx_buf := []\<rparr>\<rparr> = s"
proof -
  assume a: "rx_buf (serial s) = []"
  have "(serial s)\<lparr>rx_buf := []\<rparr> = (serial s)\<lparr>rx_buf := rx_buf (serial s)\<rparr>"
    by (simp only: a)
  then show ?thesis by simp
qed

lemma drain_rx_ok:
  "drain_ok (serial s) \<Longrightarrow> drain_rx s = (None, s\<lparr>serial := (serial s)\<lparr>rx_buf := []\<rparr>\<rparr>)"
  by (auto simp: drain_rx_closed drain_ok_def drained_id)

lemma drain_rx_fail:
  "\<not> drain_ok (serial s) \<Longrightarrow> drain_rx s = (Some (send_error (serial s)), s)"
  by (auto simp: drain_rx_closed drain_ok_def send_error_def split: option.splits)

lemma safe_uart_write_ok:
  "send_ok (serial s) \<Longrightarrow>
     safe_uart_write m s = (True, s\<lparr>serial := (serial s)\<lparr>rx_buf := []\<rparr>, wire := wire s @ m\<rparr>)"
  by (simp add: safe_uart_write_def drain_rx_ok send_ok_def serial_write_def)

lemma safe_uart_write_fail:
  "\<not> send_ok (serial s) \<Longrightarrow>
     safe_uart_write m s =
       uart_write_failed (send_error (serial s))
         (if drain_ok (serial s) then s\<lparr>serial := (serial s)\<lparr>rx_buf := []\<rparr>\<rparr> else s)"
proof (cases "drain_ok (serial s)")
  case True
  assume "\<not> send_ok (serial s)"
  with True obtain e where e: "write_exn (serial s) = Some e" by (auto simp: send_ok_def)
  with True have "send_error (serial s) = e"
    by (auto simp: send_error_def drain_ok_def split: option.splits)
  with True e show ?thesis
    by (simp add: safe_uart_write_def drain_rx_ok serial_write_def)
next
  case False
  then show ?thesis by (simp add: safe_uart_write_def drain_rx_fail)
qed

lemma safe_uart_write_keeps:
  "wire (snd (safe_uart_write m s)) = wire s @ (if send_ok (serial s) then m else [])"
  "interrupt_lock (snd (safe_uart_write m s)) = interrupt_lock s"
  "encoder_pending (snd (safe_uart_write m s)) = encoder_pending s"
  "override_pending (snd (safe_uart_write m s)) = override_pending s"
  "pump_pending (snd (safe_uart_write m s)) = pump_pending s"
  "encoder_state (snd (safe_uart_write m s)) = encoder_state s"
  "button_state (snd (safe_uart_write m s)) = button_state s"
  "stats (snd (safe_uart_write m s)) = stats s"
  by (cases "send_ok (serial s)";
      simp add: safe_uart_write_ok safe_uart_write_fail uart_write_failed_def
        ensure_uart_alive_keeps print_line_def)+

lemma ensure_uart_alive_clock: "clock s \<le> clock (snd (ensure_uart_alive s))"
  by (simp add: ensure_uart_alive_def serial_write_def serial_deinit_def sleep_ms_def
      print_line_def Let_def split: option.splits sum.splits)

lemma uart_write_failed_clock: "clock s \<le> clock (snd (uart_write_failed e s))"
proof -
  have "clock (print_line l s) \<le> clock (snd (ensure_uart_alive (print_line l s)))" for l
    by (rule ensure_uart_alive_clock)
  then show ?thesis by (simp add: uart_write_failed_def print_line_def)
qed

lemma safe_uart_write_clock: "clock s \<le> clock (snd (safe_uart_write m s))"
proof (cases "send_ok (serial s)")
  case True
  then show ?thesis by (simp add: safe_uart_write_ok)
next
  case False
  show ?thesis
  proof (cases "drain_ok (serial s)")
    case True
    have "clock (s\<lparr>serial := (serial s)\<lparr>rx_buf := []\<rparr>\<rparr>)
            \<le> clock (snd (uart_write_failed (send_error (serial s))
                  (s\<lparr>serial := (serial s)\<lparr>rx_buf := []\<rparr>\<rparr>)))"
      by (rule uart_write_failed_clock)
    then show ?thesis using False True by (simp add: safe_uart_write_fail)
  next
    case dn: False
    then show ?thesis using False by (simp add: safe_uart_write_fail uart_write_failed_clock)
  qed
qed

lemma system_reset_ok:
  "drain_ok (serial s) \<Longrightarrow>
     system_reset s =
       (Returned,
        s\<lparr>clock := clock s + 10000,
          serial := (serial s)\<lparr>rx_buf := []\<rparr>,
          interrupt_lock := False, encoder_pending := False,
          override_pending := False, pump_pending := False,
          encoder_state :=
            (encoder_state s)\<lparr>last_a := pin_a s (clock s), last_time := ticks_us s,
                                interrupt_count := 0\<rparr>\<rparr>)"
  by (simp add: system_reset_def periodic_cleanup_def Let_def drain_rx_ok sleep_ms_def
      ticks_us_def)

lemma system_reset_raises:
  "\<not> drain_ok (serial s) \<Longrightarrow> fst (system_reset s) = Raised (send_error (serial s))"
  by (simp add: system_reset_def periodic_cleanup_def Let_def drain_rx_fail)

lemma edge_state_facts:
  "encoder_pending (edge_state b m)" "configured (edge_state b m)"
  "ticks_diff (ticks_us (edge_state b m)) (last_time (encoder_state (edge_state b m))) = 2000"
  "clock (edge_state b m) = 2000" "pin_a (edge_state b m) = (\<lambda>t. if 2000 \<le> t then 1 else 0)"
  "pin_b (edge_state b m) = (\<lambda>_. b)" "pin_modifier (edge_state b m) = (\<lambda>_. m)"
  "serial (edge_state b m) = good_uart" "wire (edge_state b m) = []"
  by (simp_all add: edge_state_def encoder_isr_def check_rate_limit_def elapse_def init_state_def
      edge_world_def quiet_world_def ticks_ms_def ticks_us_def ticks_diff_def TICKS_PERIOD_def
      configured_def Let_def)

lemma press_state_facts:
  "override_pending (press_state h)" "pump_pending (press_state h)" "configured (press_state h)"
  "ticks_diff (ticks_ms (press_state h)) (override_last_time (button_state (press_state h))) = 100"
  "ticks_diff (ticks_ms (press_state h)) (pump_last_time (button_state (press_state h))) = 100"
  "clock (press_state h) = 100000"
  "pin_override (press_state h) = (\<lambda>t. if 100000 \<le> t \<and> t < 100000 + h then 0 else 1)"
  "pin_pump_stop (press_state h) = (\<lambda>t. if 100000 \<le> t \<and> t < 100000 + h then 0 else 1)"
  "serial (press_state h) = good_uart" "wire (press_state h) = []"
  by (simp_all add: press_state_def override_isr_def pump_stop_isr_def elapse_def init_state_def
      press_world_def quiet_world_def ticks_ms_def ticks_diff_def TICKS_PERIOD_def
      configured_def Let_def)

lemma boot_facts:
  "clock boot = 0" "interrupt_count (encoder_state boot) = 0"
  "last_rate_check (encoder_state boot) = 0" "max_rate (encoder_state boot) = 1000"
  "\<not> interrupt_lock boot" "\<not> encoder_pending boot" "blocked (stats boot) = 0"
  "configured boot"
  by (simp_all add: boot_def init_state_def quiet_world_def configured_def)

lemma in_window_diff:
  assumes "in_window s"
  shows "ticks_diff (ticks_ms s) (last_rate_check (encoder_state s))
           = int (clock s div 1000) - last_rate_check (encoder_state s)"
proof -
  have b: "int (clock s div 1000) < 2 ^ 30" "0 \<le> int (clock s div 1000)"
    using assms by (auto simp: in_window_def)
  then have t: "ticks_ms s = int (clock s div 1000)"
    by (simp add: ticks_ms_def TICKS_PERIOD_def)
  show ?thesis unfolding t
    by (rule ticks_diff_small) (use assms in \<open>auto simp: in_window_def\<close>)
qed

lemma encoder_isr_in_window:
  assumes "in_window s" "\<not> interrupt_lock s"
  shows "encoder_isr s =
     (if interrupt_count (encoder_state s) + 1 \<le> max_rate (encoder_state s)
      then s\<lparr>encoder_pending := True,
             encoder_state := (encoder_state s)\<lparr>interrupt_count :=
                                 interrupt_count (encoder_state s) + 1\<rparr>\<rparr>
      else s\<lparr>encoder_state := (encoder_state s)\<lparr>interrupt_count :=
                                 interrupt_count (encoder_state s) + 1\<rparr>,
             stats := (stats s)\<lparr>blocked := blocked (stats s) + 1\<rparr>\<rparr>)"
proof -
  have "ticks_diff (ticks_ms s) (last_rate_check (encoder_state s)) < 1000"
    using assms(1) in_window_diff [OF assms(1)] by (simp add: in_window_def)
  then show ?thesis
    using assms(2) by (simp add: encoder_isr_def check_rate_limit_def Let_def count_blocked_def)
qed

lemma encoder_irqs_admitted:
  assumes "\<not> interrupt_lock s" "0 < n"
    and "0 \<le> last_rate_check (encoder_state s)"
    and "last_rate_check (encoder_state s) \<le> int (clock s div 1000)"
    and "int ((clock s + n * gap) div 1000) < last_rate_check (encoder_state s) + 1000"
    and "last_rate_check (encoder_state s) < 2 ^ 29"
    and "interrupt_count (encoder_state s) + int n \<le> max_rate (encoder_state s)"
  shows "encoder_irqs n gap s =
           s\<lparr>clock := clock s + n * gap, encoder_pending := True,
             encoder_state := (encoder_state s)\<lparr>interrupt_count :=
                                 interrupt_count (encoder_state s) + int n\<rparr>\<rparr>"
  using assms
proof (induction n arbitrary: s)
  case 0
  then show ?case by simp
next
  case (Suc n)
  let ?e = "elapse gap s"
  have mono: "(clock s + gap) div 1000 \<le> (clock s + Suc n * gap) div 1000"
    by (rule div_le_mono) simp
  have mono0: "clock s div 1000 \<le> (clock s + gap) div 1000"
    by (rule div_le_mono) simp
  have w: "in_window ?e"
    using Suc.prems mono mono0 by (simp add: in_window_def elapse_def)
  have l: "\<not> interrupt_lock ?e" using Suc.prems by (simp add: elapse_def)
  have c: "interrupt_count (encoder_state ?e) + 1 \<le> max_rate (encoder_state ?e)"
    using Suc.prems by (simp add: elapse_def)
  let ?s' = "encoder_isr ?e"
  have s': "?s' = s\<lparr>clock := clock s + gap, encoder_pending := True,
             encoder_state := (encoder_state s)\<lparr>interrupt_count :=
                                 interrupt_count (encoder_state s) + 1\<rparr>\<rparr>"
    using c by (simp add: encoder_isr_in_window [OF w l]) (simp add: elapse_def)
  show ?case
  proof (cases "n = 0")
    case True
    then show ?thesis by (simp add: s')
  next
    case False
    have "encoder_irqs n gap ?s' =
           ?s'\<lparr>clock := clock ?s' + n * gap, encoder_pending := True,
             encoder_state := (encoder_state ?s')\<lparr>interrupt_count :=
                                 interrupt_count (encoder_state ?s') + int n\<rparr>\<rparr>"
    proof (rule Suc.IH)
      show "\<not> interrupt_lock ?s'" using Suc.prems by (simp add: s')
      show "0 < n" using False by simp
      show "0 \<le> last_rate_check (encoder_state ?s')" using Suc.prems by (simp add: s')
      show "last_rate_check (encoder_state ?s') \<le> int (clock ?s' div 1000)"
        using Suc.prems mono0 by (simp add: s')
      show "int ((clock ?s' + n * gap) div 1000) < last_rate_check (encoder_state ?s') + 1000"
        using Suc.prems by (simp add: s' add.assoc)
      show "last_rate_check (encoder_state ?s') < 2 ^ 29" using Suc.prems by (simp add: s')
      show "interrupt_count (encoder_state ?s') + int n \<le> max_rate (encoder_state ?s')"
        using Suc.prems by (simp add: s')
    qed
    then show ?thesis by (simp add: s' add.assoc)
  qed
qed



lemma saturated_eq:
  "saturated =
     boot\<lparr>clock := 500500, encoder_pending := True,
          encoder_state := (encoder_state boot)\<lparr>interrupt_count := 1001\<rparr>,
          stats := (stats boot)\<lparr>blocked := 1\<rparr>\<rparr>"
proof -
  have "encoder_irqs 1000 500 boot =
     boot\<lparr>clock := clock boot + 1000 * 500, encoder_pending := True,
        encoder_state := (encoder_state boot)\<lparr>interrupt_count :=
           interrupt_count (encoder_state boot) + int 1000\<rparr>\<rparr>"
    by (rule encoder_irqs_admitted) (simp_all add: boot_facts)
  then show ?thesis
    by (simp add: saturated_def boot_facts encoder_isr_def check_rate_limit_def elapse_def
        Let_def ticks_ms_def ticks_diff_def TICKS_PERIOD_def count_blocked_def)
qed

lemma system_reset_keeps:
  "interrupt_count (encoder_state (snd (system_reset s))) = 0"
  "last_rate_check (encoder_state (snd (system_reset s))) = last_rate_check (encoder_state s)"
  "max_rate (encoder_state (snd (system_reset s))) = max_rate (encoder_state s)"
  "button_state (snd (system_reset s)) = button_state s"
  "stats (snd (system_reset s)) = stats s"
  by (cases "drain_ok (serial s)";
      simp add: system_reset_def periodic_cleanup_def Let_def drain_rx_ok drain_rx_fail
        sleep_ms_def)+

text \<open>The three thresholds are set at start-up and no operation changes them.\<close>

lemma configured_init: "configured (init_state w u)"
  by (simp add: configured_def init_state_def)

lemma configured_isr:
  "configured (encoder_isr s) = configured s"
  "configured (override_isr s) = configured s"
  "configured (pump_stop_isr s) = configured s"
  by (simp_all add: configured_def encoder_isr_def override_isr_def pump_stop_isr_def
      check_rate_limit_def count_blocked_def Let_def split: bool.splits)

lemma configured_process:
  "configured (process_encoder s) = configured s"
  "configured (process_override s) = configured s"
  "configured (process_pump_stop s) = configured s"
  by (simp_all add: configured_def process_encoder_def process_override_def
      process_pump_stop_def Let_def safe_uart_write_keeps print_line_def sleep_ms_def)

lemma configured_reset: "configured (snd (system_reset s)) = configured s"
  by (cases "drain_ok (serial s)";
      simp add: configured_def system_reset_def periodic_cleanup_def Let_def drain_rx_ok
        drain_rx_fail sleep_ms_def)

subsection \<open>The routines once the debounce check is passed\<close>

text \<open>
  When \<^verbatim>\<open>ticks_diff(now, last)\<close> is at least the window, a pending encoder edge with
  phase A = 1 puts sign, step and newline on the wire (if the send goes through) and
  counts one step, and with phase A not 1 nothing is written, printed or counted.
\<close>

lemma process_encoder_passed_check:
  assumes "encoder_pending s" and "configured s"
    and "ticks_diff (ticks_us s) (last_time (encoder_state s)) \<ge> 1500"
  shows "(pin_a s (clock s) = 1 \<longrightarrow>
            wire (process_encoder s) =
              wire s @ (if send_ok (serial s)
                        then (if pin_b s (clock s) = 0 then ''+'' else ''-'')
                             @ (if pin_modifier s (clock s) = 0 then ''10'' else ''1'')
                             @ ''\<newline>''
                        else [])
          \<and> steps (stats (process_encoder s)) = steps (stats s) + 1)
       \<and> (pin_a s (clock s) \<noteq> 1 \<longrightarrow>
            wire (process_encoder s) = wire s
          \<and> console (process_encoder s) = console s
          \<and> stats (process_encoder s) = stats s)"
  using assms
  by (simp add: process_encoder_def configured_def Let_def safe_uart_write_keeps
      print_line_def encoder_msg_def str_int_def digit_char_def ticks_us_def)

lemma process_encoder_examples:
  "wire (process_encoder (edge_state 0 1)) = ''+1\<newline>''
   \<and> wire (process_encoder (edge_state 1 0)) = ''-10\<newline>''"
  using process_encoder_passed_check [of "edge_state 0 1"] process_encoder_passed_check [of "edge_state 1 0"]
  by (simp add: edge_state_facts send_ok_def drain_ok_def good_uart_def)

text \<open>
  Likewise a pending button interrupt that passes the check waits 5 ms, reads the pin
  at that time and writes \<open>OV\<close> or \<open>PS\<close> exactly when it reads 0.
\<close>

lemma process_button_passed_check:
  assumes "configured s"
  shows "(override_pending s
          \<and> ticks_diff (ticks_ms s) (override_last_time (button_state s)) \<ge> 50 \<longrightarrow>
            wire (process_override s) =
              wire s @ (if pin_override s (clock s + 5000) = 0 \<and> send_ok (serial s)
                        then ''OV\<newline>'' else [])
          \<and> overrides (stats (process_override s)) =
              overrides (stats s) + (if pin_override s (clock s + 5000) = 0 then 1 else 0)
          \<and> clock s + 5000 \<le> clock (process_override s))
       \<and> (pump_pending s
          \<and> ticks_diff (ticks_ms s) (pump_last_time (button_state s)) \<ge> 50 \<longrightarrow>
            wire (process_pump_stop s) =
              wire s @ (if pin_pump_stop s (clock s + 5000) = 0 \<and> send_ok (serial s)
                        then ''PS\<newline>'' else [])
          \<and> pump_stops (stats (process_pump_stop s)) =
              pump_stops (stats s) + (if pin_pump_stop s (clock s + 5000) = 0 then 1 else 0)
          \<and> clock s + 5000 \<le> clock (process_pump_stop s))"
proof -
  have c: "clock (sleep_ms 5 r) \<le> clock (snd (safe_uart_write m (sleep_ms 5 r)))" for m r
    by (rule safe_uart_write_clock)
  show ?thesis
    using assms c [of "s\<lparr>override_pending := False,
        button_state := (button_state s)\<lparr>override_last_time := ticks_ms s\<rparr>\<rparr>"]
      c [of "s\<lparr>pump_pending := False,
        button_state := (button_state s)\<lparr>pump_last_time := ticks_ms s\<rparr>\<rparr>"]
    by (simp add: process_override_def process_pump_stop_def configured_def Let_def
        safe_uart_write_keeps print_line_def sleep_ms_def ticks_ms_def)
qed

lemma process_button_examples:
  "wire (process_override (press_state 20000)) = ''OV\<newline>''
   \<and> wire (process_override (press_state 3000)) = []
   \<and> wire (process_pump_stop (press_state 20000)) = ''PS\<newline>''
   \<and> wire (process_pump_stop (press_state 3000)) = []"
  using process_button_passed_check [of "press_state 20000"] process_button_passed_check [of "press_state 3000"]
  by (simp add: press_state_facts send_ok_def drain_ok_def good_uart_def)

subsection \<open>Tick differences and real time\<close>

text \<open>
  \<^verbatim>\<open>ticks_diff\<close> of two tick values is the real difference of the times they were
  taken at only while that difference is below \<open>2 ^ 29\<close>; within that range the
  admission check does what the specification's rate limiter does.
\<close>

lemma ticks_diff_mod:
  assumes "- (2 ^ 29) \<le> a - b" "a - b < 2 ^ 29"
  shows "ticks_diff (a mod TICKS_PERIOD) (b mod TICKS_PERIOD) = a - b"
proof -
  have "(a mod TICKS_PERIOD - b mod TICKS_PERIOD + TICKS_PERIOD div 2) mod TICKS_PERIOD
          = (a - b + TICKS_PERIOD div 2) mod TICKS_PERIOD"
    by (metis mod_add_left_eq mod_diff_eq)
  also have "\<dots> = a - b + TICKS_PERIOD div 2"
    using assms by (simp add: TICKS_PERIOD_def)
  finally show ?thesis by (simp add: ticks_diff_def)
qed

lemma check_rate_limit_refines:
  assumes "max_rate (encoder_state s) = 1000"
    and "last_rate_check (encoder_state s) = start mod TICKS_PERIOD"
    and "0 \<le> int (clock s div 1000) - start" and "int (clock s div 1000) - start < 2 ^ 29"
  shows "check_rate_limit s =
     (case admit_spec (int (clock s div 1000)) (interrupt_count (encoder_state s)) start of
        (ok, c, w) \<Rightarrow>
          (ok, s\<lparr>encoder_state :=
                   (encoder_state s)\<lparr>interrupt_count := c,
                                       last_rate_check := w mod TICKS_PERIOD\<rparr>\<rparr>))"
proof -
  have "ticks_diff (ticks_ms s) (last_rate_check (encoder_state s))
          = int (clock s div 1000) - start"
    unfolding ticks_ms_def assms(2) by (rule ticks_diff_mod) (use assms in auto)
  then show ?thesis
    using assms(1,2) by (simp add: check_rate_limit_def admit_spec_def Let_def ticks_ms_def)
qed

lemma encoder_isr_counted:
  assumes "ticks_diff (ticks_ms s) (last_rate_check (encoder_state s)) < 1000"
    and "\<not> interrupt_lock s"
  shows "encoder_isr s =
     (if interrupt_count (encoder_state s) + 1 \<le> max_rate (encoder_state s)
      then s\<lparr>encoder_pending := True,
             encoder_state := (encoder_state s)\<lparr>interrupt_count :=
                                 interrupt_count (encoder_state s) + 1\<rparr>\<rparr>
      else s\<lparr>encoder_state := (encoder_state s)\<lparr>interrupt_count :=
                                 interrupt_count (encoder_state s) + 1\<rparr>,
             stats := (stats s)\<lparr>blocked := blocked (stats s) + 1\<rparr>\<rparr>)"
  using assms by (simp add: encoder_isr_def check_rate_limit_def Let_def count_blocked_def)

lemma encoder_irqs_counted:
  assumes "\<not> interrupt_lock s" "0 < n"
    and "\<And>k. 1 \<le> k \<Longrightarrow> k \<le> n \<Longrightarrow>
           ticks_diff (int ((clock s + k * gap) div 1000) mod TICKS_PERIOD)
             (last_rate_check (encoder_state s)) < 1000"
    and "interrupt_count (encoder_state s) + int n \<le> max_rate (encoder_state s)"
  shows "encoder_irqs n gap s =
           s\<lparr>clock := clock s + n * gap, encoder_pending := True,
             encoder_state := (encoder_state s)\<lparr>interrupt_count :=
                                 interrupt_count (encoder_state s) + int n\<rparr>\<rparr>"
  using assms
proof (induction n arbitrary: s)
  case 0
  then show ?case by simp
next
  case (Suc n)
  let ?e = "elapse gap s"
  have w: "ticks_diff (ticks_ms ?e) (last_rate_check (encoder_state ?e)) < 1000"
    using Suc.prems(3) [of 1] by (simp add: ticks_ms_def elapse_def)
  have l: "\<not> interrupt_lock ?e" using Suc.prems by (simp add: elapse_def)
  have c: "interrupt_count (encoder_state ?e) + 1 \<le> max_rate (encoder_state ?e)"
    using Suc.prems by (simp add: elapse_def)
  let ?s' = "encoder_isr ?e"
  have s': "?s' = s\<lparr>clock := clock s + gap, encoder_pending := True,
             encoder_state := (encoder_state s)\<lparr>interrupt_count :=
                                 interrupt_count (encoder_state s) + 1\<rparr>\<rparr>"
    using c by (simp add: encoder_isr_counted [OF w l]) (simp add: elapse_def)
  show ?case
  proof (cases "n = 0")
    case True
    then show ?thesis by (simp add: s')
  next
    case False
    have "encoder_irqs n gap ?s' =
           ?s'\<lparr>clock := clock ?s' + n * gap, encoder_pending := True,
             encoder_state := (encoder_state ?s')\<lparr>interrupt_count :=
                                 interrupt_count (encoder_state ?s') + int n\<rparr>\<rparr>"
    proof (rule Suc.IH)
      show "\<not> interrupt_lock ?s'" using Suc.prems by (simp add: s')
      show "0 < n" using False by simp
      show "ticks_diff (int ((clock ?s' + k * gap) div 1000) mod TICKS_PERIOD)
             (last_rate_check (encoder_state ?s')) < 1000" if "1 \<le> k" "k \<le> n" for k
        using Suc.prems(3) [of "Suc k"] that by (simp add: s' add.assoc)
      show "interrupt_count (encoder_state ?s') + int n \<le> max_rate (encoder_state ?s')"
        using Suc.prems by (simp add: s')
    qed
    then show ?thesis by (simp add: s' add.assoc)
  qed
qed

lemma late_edge_state_facts:
  "encoder_pending late_edge_state" "configured late_edge_state"
  "clock late_edge_state = 600000000" "last_time (encoder_state late_edge_state) = 0"
  "pin_a late_edge_state = (\<lambda>t. if 600000000 \<le> t then 1 else 0)"
  "ticks_us late_edge_state = 600000000"
  by (simp_all add: late_edge_state_def encoder_isr_def check_rate_limit_def elapse_def
      init_state_def late_edge_world_def quiet_world_def ticks_ms_def ticks_us_def
      ticks_diff_def TICKS_PERIOD_def configured_def Let_def)

lemma late_press_state_facts:
  "override_pending late_press_state" "pump_pending late_press_state"
  "configured late_press_state"
  "clock late_press_state = 604800000000"
  "override_last_time (button_state late_press_state) = 0"
  "pump_last_time (button_state late_press_state) = 0"
  "pin_override late_press_state = (\<lambda>t. if 604800000000 \<le> t then 0 else 1)"
  "pin_pump_stop late_press_state = (\<lambda>t. if 604800000000 \<le> t then 0 else 1)"
  "ticks_ms late_press_state = 604800000"
  by (simp_all add: late_press_state_def override_isr_def pump_stop_isr_def elapse_def
      init_state_def late_press_world_def quiet_world_def ticks_ms_def TICKS_PERIOD_def
      configured_def)

lemma week_later_facts:
  "clock week_later = 604800000000" "\<not> interrupt_lock week_later"
  "last_rate_check (encoder_state week_later) = 0"
  "interrupt_count (encoder_state week_later) = 0"
  "max_rate (encoder_state week_later) = 1000"
  "blocked (stats week_later) = 0"
  by (simp_all add: week_later_def elapse_def boot_facts)

lemma week_later_irqs:
  assumes "0 < n" "n \<le> 1000"
  shows "encoder_irqs n 2000000 week_later =
     week_later\<lparr>clock := 604800000000 + n * 2000000, encoder_pending := True,
        encoder_state := (encoder_state week_later)\<lparr>interrupt_count := int n\<rparr>\<rparr>"
proof -
  have dz: "ticks_diff (int ((clock week_later + k * 2000000) div 1000) mod TICKS_PERIOD)
             (last_rate_check (encoder_state week_later)) < 1000"
    if "1 \<le> k" "k \<le> n" for k
  proof -
    have e: "(604800000000 + k * 2000000) div 1000 = 604800000 + k * 2000"
      by presburger
    have b: "k \<le> 1000" using that assms by simp
    define x where "x = int (604800000 + k * 2000)"
    have xb: "604800000 \<le> x" "x \<le> 606800000" using b by (simp_all add: x_def)
    have m: "x mod 1073741824 = x"
      by (rule mod_pos_pos_trivial) (use xb in simp_all)
    have "(x + 536870912) mod 1073741824 = (x + 536870912 - 1073741824) mod 1073741824"
      by (rule minus_mod_self2 [symmetric])
    also have "\<dots> = x + 536870912 - 1073741824"
      by (rule mod_pos_pos_trivial) (use xb in simp_all)
    finally have r: "(x + 536870912) mod 1073741824 = x - 536870912" by simp
    have "ticks_diff (x mod TICKS_PERIOD) 0 < 1000"
      using xb by (simp add: ticks_diff_def TICKS_PERIOD_def m r)
    then show ?thesis
      by (simp only: week_later_facts e x_def)
  qed
  have "encoder_irqs n 2000000 week_later =
     week_later\<lparr>clock := clock week_later + n * 2000000, encoder_pending := True,
        encoder_state := (encoder_state week_later)\<lparr>interrupt_count :=
           interrupt_count (encoder_state week_later) + int n\<rparr>\<rparr>"
    by (rule encoder_irqs_counted) (use assms dz in \<open>simp_all add: week_later_facts\<close>)
  then show ?thesis by (simp add: week_later_facts)
qed

section \<open>The claims\<close>





text \<open>
  C3. The claim: a pending encoder edge processed outside the 1500 us debounce window
  with phase A reading 1 emits exactly one event. The code on a concrete input: the
  encoder is idle for 600 s after start-up, then phase A rises and the interrupt is
  admitted. 600 s is far outside the window, but the tick counter is a ring of
  \<open>2 ^ 30\<close> us and \<^verbatim>\<open>ticks_diff\<close> reads the gap as -473741824 us, which is below
  1500: the routine takes the debounce return and only clears the pending flag.
  Nothing is written, printed or counted.
\<close>

theorem encoder_edge_dropped_after_idle:
  "encoder_pending late_edge_state
   \<and> pin_a late_edge_state (clock late_edge_state) = 1
   \<and> clock late_edge_state = 600000000
   \<and> last_time (encoder_state late_edge_state) = 0
   \<and> ticks_diff (ticks_us late_edge_state) (last_time (encoder_state late_edge_state))
        = - 473741824
   \<and> process_encoder late_edge_state = late_edge_state\<lparr>encoder_pending := False\<rparr>
   \<and> wire (process_encoder late_edge_state) = wire late_edge_state
   \<and> console (process_encoder late_edge_state) = console late_edge_state
   \<and> steps (stats (process_encoder late_edge_state)) = steps (stats late_edge_state)"
proof -
  have d: "ticks_diff (ticks_us late_edge_state) (last_time (encoder_state late_edge_state))
        = - 473741824"
    by (simp add: late_edge_state_facts ticks_diff_def TICKS_PERIOD_def)
  have c: "debounce_us (encoder_state late_edge_state) = 1500"
    using late_edge_state_facts(2) by (simp add: configured_def)
  have p: "process_encoder late_edge_state = late_edge_state\<lparr>encoder_pending := False\<rparr>"
    using d c by (simp add: process_encoder_def Let_def late_edge_state_facts(1) ticks_us_def)
  show ?thesis by (simp add: p d) (simp add: late_edge_state_facts)
qed

text \<open>
  C4, as amended. With the lock clear, the override and pump-stop handlers change
  nothing but their own pending flag. The encoder handler, when the rate limiter
  admits, sets its pending flag and also updates the rate limiter's own bookkeeping in
  \<^verbatim>\<open>encoder_state\<close>: the interrupt counter, and the window start when a new window
  opens. Nothing else changes: no byte is written or printed, the clock does not move
  (nothing blocks), and no debounce timestamp is touched.
\<close>

theorem isr_effects:
  assumes "\<not> interrupt_lock s"
  shows "override_isr s = s\<lparr>override_pending := True\<rparr>
       \<and> pump_stop_isr s = s\<lparr>pump_pending := True\<rparr>
       \<and> (fst (check_rate_limit s) \<longrightarrow>
            encoder_isr s =
              s\<lparr>encoder_pending := True,
                encoder_state :=
                  (if ticks_diff (ticks_ms s) (last_rate_check (encoder_state s)) \<ge> 1000
                   then (encoder_state s)\<lparr>interrupt_count := 0, last_rate_check := ticks_ms s\<rparr>
                   else (encoder_state s)\<lparr>interrupt_count :=
                          interrupt_count (encoder_state s) + 1\<rparr>)\<rparr>)"
  using assms
  by (simp add: override_isr_def pump_stop_isr_def encoder_isr_def check_rate_limit_def Let_def)

theorem isr_effects_witness:
  "override_pending (override_isr boot) \<and> pump_pending (pump_stop_isr boot)
   \<and> encoder_pending (encoder_isr boot)
   \<and> interrupt_count (encoder_state (encoder_isr boot)) = 1"
proof -
  have l: "\<not> interrupt_lock boot" by (simp add: boot_facts)
  have f: "fst (check_rate_limit boot)"
    by (simp add: boot_facts check_rate_limit_def Let_def ticks_ms_def
        ticks_diff_def TICKS_PERIOD_def)
  show ?thesis using isr_effects [OF l] f
    by (simp add: boot_facts ticks_ms_def ticks_diff_def TICKS_PERIOD_def)
qed

text \<open>
  C4 as stated fails: the very first encoder interrupt after start-up is admitted
  with the lock clear, and besides setting the flag it moves the interrupt counter
  from 0 to 1.
\<close>

theorem encoder_isr_counterexample:
  "\<not> interrupt_lock boot \<and> fst (check_rate_limit boot)
   \<and> interrupt_count (encoder_state boot) = 0
   \<and> interrupt_count (encoder_state (encoder_isr boot)) = 1
   \<and> encoder_isr boot \<noteq> boot\<lparr>encoder_pending := True\<rparr>"
proof -
  have a: "interrupt_count (encoder_state (encoder_isr boot)) = 1"
    by (simp add: encoder_isr_def check_rate_limit_def Let_def boot_facts ticks_ms_def
        ticks_diff_def TICKS_PERIOD_def)
  have b: "interrupt_count (encoder_state (boot\<lparr>encoder_pending := True\<rparr>)) = 0"
    by (simp add: boot_facts)
  have "encoder_isr boot \<noteq> boot\<lparr>encoder_pending := True\<rparr>"
  proof
    assume "encoder_isr boot = boot\<lparr>encoder_pending := True\<rparr>"
    then have "interrupt_count (encoder_state (encoder_isr boot))
             = interrupt_count (encoder_state (boot\<lparr>encoder_pending := True\<rparr>))" by simp
    then show False using a b by simp
  qed
  then show ?thesis
    using a by (simp add: boot_facts check_rate_limit_def Let_def ticks_ms_def
        ticks_diff_def TICKS_PERIOD_def)
qed

text \<open>
  C5. While the interrupt lock is set, each of the three interrupt handlers leaves all
  three pending flags as they are.
\<close>

theorem isr_locked_keeps_pending:
  assumes "interrupt_lock s"
  shows "encoder_pending (encoder_isr s) = encoder_pending s
       \<and> override_pending (encoder_isr s) = override_pending s
       \<and> pump_pending (encoder_isr s) = pump_pending s
       \<and> encoder_pending (override_isr s) = encoder_pending s
       \<and> override_pending (override_isr s) = override_pending s
       \<and> pump_pending (override_isr s) = pump_pending s
       \<and> encoder_pending (pump_stop_isr s) = encoder_pending s
       \<and> override_pending (pump_stop_isr s) = override_pending s
       \<and> pump_pending (pump_stop_isr s) = pump_pending s"
  using assms by (simp add: encoder_isr_def override_isr_def pump_stop_isr_def count_blocked_def)

theorem isr_locked_keeps_pending_witness:
  "interrupt_lock locked_state
   \<and> \<not> encoder_pending (encoder_isr locked_state)
   \<and> \<not> override_pending (override_isr locked_state)
   \<and> \<not> pump_pending (pump_stop_isr locked_state)"
proof -
  have l: "interrupt_lock locked_state" by (simp add: locked_state_def)
  have f: "\<not> encoder_pending locked_state" "\<not> override_pending locked_state"
    "\<not> pump_pending locked_state"
    by (simp_all add: locked_state_def boot_def init_state_def)
  show ?thesis using isr_locked_keeps_pending [OF l] l f by simp
qed

text \<open>
  C6. The claim: if at least 1000 ms have elapsed since the window start the admission
  check resets the counter to 0, sets the window start to now and admits. The code on
  a concrete input: the first call 7 days after start-up, window start 0. The
  specification's rate limiter resets; the code reads the gap as negative, takes the
  other branch, counts the interrupt (counter 1) and keeps window start 0. It goes on
  so: of a train of interrupts from that moment on, 2 s apart and so each more than
  1000 ms after the one before, 1000 are counted and admitted and the next is blocked
  and sets no pending flag, where the specification's rate limiter, its window
  started at the interrupt before, resets and admits.
\<close>

theorem rate_window_kept_after_idle:
  "ticks_ms week_later = 604800000
   \<and> last_rate_check (encoder_state week_later) = 0
   \<and> interrupt_count (encoder_state week_later) = 0
   \<and> max_rate (encoder_state week_later) = 1000
   \<and> admit_spec 604800000 0 0 = (True, 0, 604800000)
   \<and> check_rate_limit week_later =
        (True, week_later\<lparr>encoder_state :=
                  (encoder_state week_later)\<lparr>interrupt_count := 1\<rparr>\<rparr>)
   \<and> interrupt_count (encoder_state (snd (check_rate_limit week_later))) = 1
   \<and> last_rate_check (encoder_state (snd (check_rate_limit week_later))) = 0
   \<and> interrupt_count (encoder_state (encoder_irqs 1000 2000000 week_later)) = 1000
   \<and> last_rate_check (encoder_state (encoder_irqs 1000 2000000 week_later)) = 0
   \<and> blocked (stats (encoder_irqs 1000 2000000 week_later)) = 0
   \<and> ticks_ms (elapse 2000000 (encoder_irqs 1000 2000000 week_later)) = 606802000
   \<and> admit_spec 606802000 0 606800000 = (True, 0, 606802000)
   \<and> blocked (stats (encoder_isr (elapse 2000000 (encoder_irqs 1000 2000000 week_later)))) = 1
   \<and> \<not> encoder_pending
        (encoder_isr (elapse 2000000
           ((encoder_irqs 1000 2000000 week_later)\<lparr>encoder_pending := False\<rparr>)))"
proof -
  have f: "ticks_ms week_later = 604800000"
    by (simp add: week_later_facts ticks_ms_def TICKS_PERIOD_def)
  have d: "ticks_diff 604800000 0 = - 468941824"
    by (simp add: ticks_diff_def TICKS_PERIOD_def)
  have c: "check_rate_limit week_later =
        (True, week_later\<lparr>encoder_state :=
                  (encoder_state week_later)\<lparr>interrupt_count := 1\<rparr>\<rparr>)"
    by (simp add: check_rate_limit_def Let_def f d week_later_facts)
  have t: "encoder_irqs 1000 2000000 week_later =
     week_later\<lparr>clock := 604800000000 + 1000 * 2000000, encoder_pending := True,
        encoder_state := (encoder_state week_later)\<lparr>interrupt_count := int 1000\<rparr>\<rparr>"
    by (rule week_later_irqs) simp_all
  show ?thesis
    by (simp add: c f admit_spec_def week_later_facts)
       (simp add: t week_later_facts encoder_isr_def check_rate_limit_def elapse_def Let_def
          ticks_ms_def ticks_diff_def TICKS_PERIOD_def count_blocked_def)
qed

text \<open>
  C7. The claim: a pending button interrupt processed outside the 50 ms debounce
  window waits 5 ms, re-reads the pin and emits \<open>OV\<close> (respectively \<open>PS\<close>) if the pin
  still reads 0. The code on a concrete input: both buttons are pressed 7 days after
  start-up, the first press ever, and held. 7 days is far outside the window, but
  \<^verbatim>\<open>ticks_diff\<close> reads the gap of 604800000 ms as -468941824 ms, which is below 50:
  both routines take the debounce return. No time passes (no 5 ms wait, no re-read)
  and nothing is written.
\<close>

theorem button_press_dropped_after_idle:
  "override_pending late_press_state \<and> pump_pending late_press_state
   \<and> ticks_ms late_press_state = 604800000
   \<and> override_last_time (button_state late_press_state) = 0
   \<and> pump_last_time (button_state late_press_state) = 0
   \<and> pin_override late_press_state (clock late_press_state + 5000) = 0
   \<and> pin_pump_stop late_press_state (clock late_press_state + 5000) = 0
   \<and> ticks_diff (ticks_ms late_press_state) 0 = - 468941824
   \<and> process_override late_press_state = late_press_state\<lparr>override_pending := False\<rparr>
   \<and> process_pump_stop late_press_state = late_press_state\<lparr>pump_pending := False\<rparr>
   \<and> clock (process_override late_press_state) = clock late_press_state
   \<and> wire (process_override late_press_state) = wire late_press_state
   \<and> wire (process_pump_stop late_press_state) = wire late_press_state"
proof -
  have d: "ticks_diff (ticks_ms late_press_state) 0 = - 468941824"
    by (simp add: late_press_state_facts ticks_diff_def TICKS_PERIOD_def)
  have c: "debounce_ms (button_state late_press_state) = 50"
    using late_press_state_facts(3) by (simp add: configured_def)
  have o: "process_override late_press_state = late_press_state\<lparr>override_pending := False\<rparr>"
    using d c
    by (simp add: process_override_def Let_def late_press_state_facts(1,5) ticks_ms_def)
  have p: "process_pump_stop late_press_state = late_press_state\<lparr>pump_pending := False\<rparr>"
    using d c
    by (simp add: process_pump_stop_def Let_def late_press_state_facts(2,6) ticks_ms_def)
  show ?thesis by (simp add: o p d) (simp add: late_press_state_facts)
qed

text \<open>
  C8. System reset is idempotent on the observable state: after a reset that returned,
  a second reset returns too and leaves the three pending flags false, the lock
  false and the interrupt counter zero, as the first did.
\<close>

theorem system_reset_idempotent:
  assumes "system_reset s = (Returned, s1)"
  shows "fst (system_reset s1) = Returned
       \<and> observable (snd (system_reset s1)) = observable s1
       \<and> observable s1 = (False, False, False, False, 0)"
proof -
  have ok: "drain_ok (serial s)"
    using assms system_reset_raises [of s] by (cases "drain_ok (serial s)") auto
  have s1: "s1 = snd (system_reset s)" using assms by simp
  have ok1: "drain_ok (serial s1)"
    using ok by (simp add: s1 system_reset_ok drain_ok_def)
  show ?thesis
    by (simp add: system_reset_ok [OF ok1] observable_def) (simp add: s1 system_reset_ok [OF ok])
qed

theorem system_reset_idempotent_witness:
  "observable (snd (system_reset (snd (system_reset (press_state 20000)))))
     = (False, False, False, False, 0)
   \<and> observable (press_state 20000) = (False, True, True, False, 0)"
proof -
  have ok: "drain_ok (serial (press_state 20000))"
    by (simp add: press_state_facts drain_ok_def good_uart_def)
  have r: "system_reset (press_state 20000) = (Returned, snd (system_reset (press_state 20000)))"
    by (simp add: system_reset_ok [OF ok])
  have o: "observable (press_state 20000) = (False, True, True, False, 0)"
    by (simp add: observable_def press_state_facts)
       (simp add: press_state_def override_isr_def pump_stop_isr_def elapse_def init_state_def)
  show ?thesis using system_reset_idempotent [OF r] o by simp
qed

text \<open>
  C9, as amended. In both revisions a send first empties the receive buffer, then
  writes, and returns true with the message on the wire when both succeed. When the
  drain or the write raises, revision 1.5 prints the failure, runs
  \<^verbatim>\<open>ensure_uart_alive\<close> and returns false; the wire is unchanged and the resulting
  state does not depend on the message (no retry, nothing queued). Revision 1.3 has no
  health check: on failure it returns false and leaves the transport as it is.
\<close>

theorem safe_uart_write_spec:
  "(send_ok (serial s) \<longrightarrow>
      safe_uart_write m s = (True, (drained s)\<lparr>wire := wire s @ m\<rparr>)
    \<and> safe_uart_write_v13 m s = (True, (drained s)\<lparr>wire := wire s @ m\<rparr>))
   \<and> (\<not> send_ok (serial s) \<longrightarrow>
      safe_uart_write m s =
        (False, snd (ensure_uart_alive
                  (print_line (''UART write failed: '' @ send_error (serial s))
                     (if drain_ok (serial s) then drained s else s))))
    \<and> wire (snd (safe_uart_write m s)) = wire s
    \<and> safe_uart_write m s = safe_uart_write m' s
    \<and> safe_uart_write_v13 m s = (False, if drain_ok (serial s) then drained s else s))"
proof (cases "send_ok (serial s)")
  case True
  then have d: "drain_ok (serial s)" and w: "write_exn (serial s) = None"
    by (simp_all add: send_ok_def)
  show ?thesis using True w
    by (simp add: safe_uart_write_ok safe_uart_write_v13_def drain_rx_ok [OF d] drained_def
        serial_write_def)
next
  case False
  have v: "safe_uart_write_v13 m s = (False, if drain_ok (serial s) then drained s else s)"
  proof (cases "drain_ok (serial s)")
    case True
    with False obtain e where "write_exn (serial s) = Some e" by (auto simp: send_ok_def)
    then show ?thesis using True
      by (simp add: safe_uart_write_v13_def drain_rx_ok serial_write_def drained_def)
  next
    case False
    then show ?thesis by (simp add: safe_uart_write_v13_def drain_rx_fail)
  qed
  show ?thesis using False v
    by (simp add: safe_uart_write_fail uart_write_failed_def ensure_uart_alive_keeps
        print_line_def drained_def)
qed

theorem safe_uart_write_spec_witness:
  "safe_uart_write ''OK\<newline>'' (boot\<lparr>serial := good_uart\<lparr>rx_buf := ''zz''\<rparr>\<rparr>)
     = (True, boot\<lparr>wire := ''OK\<newline>''\<rparr>)
   \<and> wire (snd (safe_uart_write ''OK\<newline>'' faulty_state)) = []
   \<and> safe_uart_write_v13 ''OK\<newline>'' faulty_state = (False, drained faulty_state)"
proof -
  let ?g = "boot\<lparr>serial := good_uart\<lparr>rx_buf := ''zz''\<rparr>\<rparr>"
  have ok: "send_ok (serial ?g)"
    by (simp add: send_ok_def drain_ok_def good_uart_def)
  have g: "(drained ?g)\<lparr>wire := wire ?g @ ''OK\<newline>''\<rparr> = boot\<lparr>wire := ''OK\<newline>''\<rparr>"
    by (simp add: drained_def good_uart_def boot_def init_state_def quiet_world_def)
  have d: "drain_ok (serial faulty_state)"
    by (simp add: faulty_state_def drain_ok_def good_uart_def)
  have n: "\<not> send_ok (serial faulty_state)"
    by (simp add: faulty_state_def send_ok_def good_uart_def)
  have w: "wire faulty_state = []"
    by (simp add: faulty_state_def boot_def init_state_def quiet_world_def)
  have 1: "safe_uart_write ''OK\<newline>'' ?g = (True, (drained ?g)\<lparr>wire := wire ?g @ ''OK\<newline>''\<rparr>)"
    using safe_uart_write_spec [of ?g "''OK\<newline>''" "[]"] ok by blast
  have 2: "wire (snd (safe_uart_write ''OK\<newline>'' faulty_state)) = wire faulty_state"
    using safe_uart_write_spec [of faulty_state "''OK\<newline>''" "[]"] n by blast
  have 3: "safe_uart_write_v13 ''OK\<newline>'' faulty_state
             = (False, if drain_ok (serial faulty_state) then drained faulty_state
                       else faulty_state)"
    using safe_uart_write_spec [of faulty_state "''OK\<newline>''" "[]"] n by blast
  show ?thesis using 1 2 3 g by (simp add: d w)
qed

text \<open>
  C9 as stated fails on revision 1.3: with a UART whose write raises, its send returns
  false having only drained the buffer; nothing is printed, no time passes and the
  faulty UART object stays in place, whereas revision 1.5 on the same input prints,
  waits 50 ms and installs a new UART.
\<close>

theorem safe_uart_write_v13_counterexample:
  "write_exn (serial faulty_state) = Some ''EIO''
   \<and> safe_uart_write_v13 ''OK\<newline>'' faulty_state = (False, drained faulty_state)
   \<and> console (snd (safe_uart_write_v13 ''OK\<newline>'' faulty_state)) = []
   \<and> clock (snd (safe_uart_write_v13 ''OK\<newline>'' faulty_state)) = 0
   \<and> write_exn (serial (snd (safe_uart_write_v13 ''OK\<newline>'' faulty_state))) = Some ''EIO''
   \<and> console (snd (safe_uart_write ''OK\<newline>'' faulty_state))
       = [''UART write failed: EIO'', ''UART error, reinitializing: EIO'', ''UART reinitialized'']
   \<and> clock (snd (safe_uart_write ''OK\<newline>'' faulty_state)) = 50000
   \<and> serial (snd (safe_uart_write ''OK\<newline>'' faulty_state)) = good_uart"
proof -
  have d: "drain_ok (serial faulty_state)"
    by (simp add: faulty_state_def drain_ok_def good_uart_def)
  have n: "\<not> send_ok (serial faulty_state)"
    by (simp add: faulty_state_def send_ok_def good_uart_def)
  have e: "send_error (serial faulty_state) = ''EIO''"
    by (simp add: faulty_state_def send_error_def good_uart_def)
  have v13: "safe_uart_write_v13 m faulty_state = (False, drained faulty_state)" for m
    by (simp add: safe_uart_write_v13_def drain_rx_ok [OF d] serial_write_def drained_def)
       (simp add: faulty_state_def)
  show ?thesis
    by (simp add: v13 safe_uart_write_fail [OF n] d e)
       (simp add: drained_def faulty_state_def boot_def init_state_def quiet_world_def
          good_uart_def uart_write_failed_def ensure_uart_alive_def print_line_def
          serial_write_def serial_deinit_def sleep_ms_def Let_def)
qed

text \<open>
  C10, as amended. A reset zeroes the encoder interrupt counter and leaves the window
  start, both button timestamps and all statistics unchanged. It does not move the
  rate window, but with the counter at zero the encoder interrupt that arrives next
  after a completed reset, at whatever time, is admitted: it sets the pending flag and
  is not counted as blocked.
\<close>

theorem system_reset_frame:
  assumes "max_rate (encoder_state s) = 1000"
  shows "interrupt_count (encoder_state (snd (system_reset s))) = 0
       \<and> last_rate_check (encoder_state (snd (system_reset s))) = last_rate_check (encoder_state s)
       \<and> button_state (snd (system_reset s)) = button_state s
       \<and> stats (snd (system_reset s)) = stats s
       \<and> (fst (system_reset s) = Returned \<longrightarrow>
            encoder_pending (encoder_isr (elapse d (snd (system_reset s))))
          \<and> blocked (stats (encoder_isr (elapse d (snd (system_reset s))))) = blocked (stats s))"
proof -
  have adm: "encoder_pending (encoder_isr (elapse d (snd (system_reset s))))
          \<and> blocked (stats (encoder_isr (elapse d (snd (system_reset s))))) = blocked (stats s)"
    if r: "fst (system_reset s) = Returned"
  proof -
    have ok: "drain_ok (serial s)"
      using r system_reset_raises [of s] by (cases "drain_ok (serial s)") auto
    show ?thesis using assms
      by (simp add: system_reset_ok [OF ok] encoder_isr_def check_rate_limit_def elapse_def
          Let_def count_blocked_def)
  qed
  show ?thesis using adm by (simp add: system_reset_keeps)
qed

theorem system_reset_frame_witness:
  "fst (system_reset saturated) = Returned
   \<and> interrupt_count (encoder_state (snd (system_reset saturated))) = 0
   \<and> last_rate_check (encoder_state (snd (system_reset saturated))) = 0
   \<and> encoder_pending (encoder_isr (elapse 0 (snd (system_reset saturated))))
   \<and> blocked (stats (encoder_isr (elapse 0 (snd (system_reset saturated))))) = 1"
proof -
  have ok: "drain_ok (serial saturated)"
    by (simp add: saturated_eq boot_def init_state_def drain_ok_def good_uart_def)
  have r: "fst (system_reset saturated) = Returned" by (simp add: system_reset_ok [OF ok])
  have m: "max_rate (encoder_state saturated) = 1000" by (simp add: saturated_eq boot_facts)
  show ?thesis using system_reset_frame [OF m, of 0] r by (simp add: saturated_eq boot_facts)
qed

text \<open>
  C10 as stated fails: in a window that is used up (counter 1001 against a maximum of
  1000, one interrupt already blocked) a reset returns, the window start stays 0, and
  the interrupt arriving 0.5 ms later, at 511 ms and so still inside that window, is
  admitted, not rejected.
\<close>

theorem reset_then_admitted_counterexample:
  "interrupt_count (encoder_state saturated) = 1001
   \<and> max_rate (encoder_state saturated) = 1000
   \<and> blocked (stats saturated) = 1
   \<and> fst (system_reset saturated) = Returned
   \<and> last_rate_check (encoder_state (snd (system_reset saturated))) = 0
   \<and> ticks_ms (elapse 500 (snd (system_reset saturated))) = 511
   \<and> encoder_pending (encoder_isr (elapse 500 (snd (system_reset saturated))))
   \<and> blocked (stats (encoder_isr (elapse 500 (snd (system_reset saturated))))) = 1"
proof -
  have ok: "drain_ok (serial saturated)"
    by (simp add: saturated_eq boot_def init_state_def drain_ok_def good_uart_def)
  show ?thesis
    by (simp add: system_reset_ok [OF ok])
       (simp add: saturated_eq boot_facts encoder_isr_def check_rate_limit_def elapse_def
          Let_def ticks_ms_def ticks_us_def ticks_diff_def TICKS_PERIOD_def count_blocked_def)
qed

end
